theory Spec2Isabelle
  imports Complex_Main "HOL-Library.Multiset"
begin

section \<open>JavaScript numbers\<close>

text \<open>
  The program computes with JavaScript numbers: IEEE 754 binary64 values. A number is
  modelled as a finite real, one of the two infinities, or NaN. Each arithmetic
  operation on finite numbers returns the exact result rounded to the nearest double,
  ties to the even significand (\<open>rnd\<close>), and an infinity when the rounded result
  reaches \<open>2^1024\<close>. The special values follow the IEEE rules (\<open>0/0\<close>,
  \<open>Infinity - Infinity\<close> and \<open>0 * Infinity\<close> are NaN, NaN is absorbing, \<open>x/0\<close> for
  \<open>x \<noteq> 0\<close> is an infinity). The sign of zero is not modelled.
\<close>

datatype jsnum = Fin real | PInf | NInf | NaN

text \<open>Rounding a real to the nearest integer, a tie to the even one.\<close>

definition round_even :: "real \<Rightarrow> int" where
  "round_even y =
     (let f = \<lfloor>y\<rfloor>; d = y - of_int f
      in if d < 1 / 2 then f else if 1 / 2 < d then f + 1 else if even f then f else f + 1)"

text \<open>
  The doubles are the multiples \<open>k * 2^q\<close> with \<open>|k| < 2^53\<close> and
  \<open>-1074 \<le> q \<le> 971\<close>. In the binade of \<open>x\<close>, from \<open>2^e\<close> to \<open>2^(e+1)\<close>, they are
  \<open>2^(e-52)\<close> apart; below \<open>2^(-1022)\<close> (the subnormal numbers) they are \<open>2^(-1074)\<close>
  apart.
\<close>

definition min_subnormal :: real where
  "min_subnormal = 1 / 2 ^ 1074"

definition overflow_bound :: real where
  "overflow_bound = 2 ^ 1024"

definition binade :: "real \<Rightarrow> int" where
  "binade x = max \<lfloor>log 2 \<bar>x\<bar>\<rfloor> (- 1022)"

definition ulp :: "real \<Rightarrow> real" where
  "ulp x = 2 ^ nat (binade x + 1022) * min_subnormal"

definition rnd :: "real \<Rightarrow> jsnum" where
  "rnd x =
     (if x = 0 then Fin 0
      else let r = ulp x * of_int (round_even (x / ulp x))
           in if overflow_bound \<le> \<bar>r\<bar> then (if 0 < x then PInf else NInf) else Fin r)"

fun js_neg :: "jsnum \<Rightarrow> jsnum" where
  "js_neg (Fin x) = Fin (- x)"
| "js_neg PInf = NInf"
| "js_neg NInf = PInf"
| "js_neg NaN = NaN"

fun js_add :: "jsnum \<Rightarrow> jsnum \<Rightarrow> jsnum" where
  "js_add NaN _ = NaN"
| "js_add _ NaN = NaN"
| "js_add (Fin x) (Fin y) = rnd (x + y)"
| "js_add PInf NInf = NaN"
| "js_add NInf PInf = NaN"
| "js_add PInf _ = PInf"
| "js_add _ PInf = PInf"
| "js_add NInf _ = NInf"
| "js_add _ NInf = NInf"

definition js_sub :: "jsnum \<Rightarrow> jsnum \<Rightarrow> jsnum" where
  "js_sub a b = js_add a (js_neg b)"

fun js_mul :: "jsnum \<Rightarrow> jsnum \<Rightarrow> jsnum" where
  "js_mul NaN _ = NaN"
| "js_mul _ NaN = NaN"
| "js_mul (Fin x) (Fin y) = rnd (x * y)"
| "js_mul (Fin x) PInf = (if x = 0 then NaN else if 0 < x then PInf else NInf)"
| "js_mul (Fin x) NInf = (if x = 0 then NaN else if 0 < x then NInf else PInf)"
| "js_mul PInf (Fin y) = (if y = 0 then NaN else if 0 < y then PInf else NInf)"
| "js_mul NInf (Fin y) = (if y = 0 then NaN else if 0 < y then NInf else PInf)"
| "js_mul PInf PInf = PInf"
| "js_mul NInf NInf = PInf"
| "js_mul PInf NInf = NInf"
| "js_mul NInf PInf = NInf"

text \<open>Division; a zero divisor is taken as \<open>+0\<close> (the only zero divisor of the program
  is a product of square roots).\<close>

fun js_div :: "jsnum \<Rightarrow> jsnum \<Rightarrow> jsnum" where
  "js_div NaN _ = NaN"
| "js_div _ NaN = NaN"
| "js_div (Fin x) (Fin y) =
     (if y = 0 then (if x = 0 then NaN else if 0 < x then PInf else NInf)
      else rnd (x / y))"
| "js_div (Fin x) PInf = Fin 0"
| "js_div (Fin x) NInf = Fin 0"
| "js_div PInf (Fin y) = (if 0 \<le> y then PInf else NInf)"
| "js_div NInf (Fin y) = (if 0 \<le> y then NInf else PInf)"
| "js_div PInf PInf = NaN"
| "js_div PInf NInf = NaN"
| "js_div NInf PInf = NaN"
| "js_div NInf NInf = NaN"

text \<open>\<open>Math.sqrt\<close>, correctly rounded.\<close>

fun js_sqrt :: "jsnum \<Rightarrow> jsnum" where
  "js_sqrt (Fin x) = (if x < 0 then NaN else rnd (sqrt x))"
| "js_sqrt PInf = PInf"
| "js_sqrt NInf = NaN"
| "js_sqrt NaN = NaN"

text \<open>The relational operators \<open>>=\<close> and \<open>>\<close> of JavaScript: false as soon as an
  operand is NaN.\<close>

fun js_ge :: "jsnum \<Rightarrow> jsnum \<Rightarrow> bool" where
  "js_ge NaN _ = False"
| "js_ge _ NaN = False"
| "js_ge (Fin x) (Fin y) = (y \<le> x)"
| "js_ge PInf _ = True"
| "js_ge _ NInf = True"
| "js_ge (Fin x) PInf = False"
| "js_ge NInf (Fin y) = False"
| "js_ge NInf PInf = False"

fun js_gt :: "jsnum \<Rightarrow> jsnum \<Rightarrow> bool" where
  "js_gt NaN _ = False"
| "js_gt _ NaN = False"
| "js_gt (Fin x) (Fin y) = (y < x)"
| "js_gt PInf PInf = False"
| "js_gt NInf NInf = False"
| "js_gt PInf _ = True"
| "js_gt _ NInf = True"
| "js_gt (Fin x) PInf = False"
| "js_gt NInf (Fin y) = False"
| "js_gt NInf PInf = False"

section \<open>Arrays\<close>

type_synonym vec = "jsnum list"

text \<open>\<open>b[i]\<close> as an operand of a product: an index out of range reads \<open>undefined\<close>,
  which converts to NaN.\<close>

definition num_at :: "vec \<Rightarrow> nat \<Rightarrow> jsnum" where
  "num_at b i = (if i < length b then b ! i else NaN)"

text \<open>\<open>xs[i]\<close> as a value: \<open>None\<close> is \<open>undefined\<close>.\<close>

definition elem_at :: "'a list \<Rightarrow> nat \<Rightarrow> 'a option" where
  "elem_at xs i = (if i < length xs then Some (xs ! i) else None)"

text \<open>\<open>xs.reduce(f, init)\<close> with the callback \<open>(acc, val, i)\<close>, from index \<open>i\<close> on.\<close>

fun reduce_from :: "('s \<Rightarrow> 'a \<Rightarrow> nat \<Rightarrow> 's) \<Rightarrow> nat \<Rightarrow> 's \<Rightarrow> 'a list \<Rightarrow> 's" where
  "reduce_from f i acc [] = acc"
| "reduce_from f i acc (x # xs) = reduce_from f (Suc i) (f acc x i) xs"

definition js_reduce :: "'a list \<Rightarrow> ('s \<Rightarrow> 'a \<Rightarrow> nat \<Rightarrow> 's) \<Rightarrow> 's \<Rightarrow> 's" where
  "js_reduce xs f init = reduce_from f 0 init xs"

text \<open>\<open>xs.map(f)\<close> with the callback \<open>(val, index)\<close>.\<close>

definition js_map_idx :: "'a list \<Rightarrow> ('a \<Rightarrow> nat \<Rightarrow> 'b) \<Rightarrow> 'b list" where
  "js_map_idx xs f = map (\<lambda>(x, i). f x i) (zip xs [0..<length xs])"

text \<open>\<open>xs.slice(start, end)\<close> for integer arguments: a negative argument counts from
  the end of the array.\<close>

definition slice_index :: "nat \<Rightarrow> int \<Rightarrow> nat" where
  "slice_index len r = (if r < 0 then nat (max (int len + r) 0) else min (nat r) len)"

definition js_slice :: "'a list \<Rightarrow> int \<Rightarrow> int \<Rightarrow> 'a list" where
  "js_slice xs start end' =
     (let from = slice_index (length xs) start; to = slice_index (length xs) end'
      in take (to - from) (drop from xs))"

text \<open>
  \<open>xs.sort(cmp)\<close>. The language requires the sort to be stable, treats a NaN returned by
  the comparator as \<open>0\<close>, and moves \<open>a\<close> behind \<open>b\<close> only when \<open>cmp(a, b) > 0\<close>.
  When no result of the comparator is NaN and the comparator is an order, every such
  sort returns the same array, and the model is the insertion sort that compares each
  element with the ones that followed it. When a result of the comparator is NaN the
  language leaves the order to the engine, and the order of the model is only one of
  those an engine may return. An array of two elements whose one comparison returns
  NaN stays as it is.
\<close>

fun sort_insert :: "('a \<Rightarrow> 'a \<Rightarrow> jsnum) \<Rightarrow> 'a \<Rightarrow> 'a list \<Rightarrow> 'a list" where
  "sort_insert cmp a [] = [a]"
| "sort_insert cmp a (b # bs) =
     (if js_gt (cmp a b) (Fin 0) then b # sort_insert cmp a bs else a # b # bs)"

fun js_sort :: "('a \<Rightarrow> 'a \<Rightarrow> jsnum) \<Rightarrow> 'a list \<Rightarrow> 'a list" where
  "js_sort cmp [] = []"
| "js_sort cmp (a # as) = sort_insert cmp a (js_sort cmp as)"

section \<open>The program\<close>

subsection \<open>Documents\<close>

record 'i rawItem =
  id' :: 'i
  title :: string
  content :: string

record 'i metadata =
  id' :: 'i
  title :: string

record 'i document =
  pageContent :: string
  metadata :: "'i metadata"

definition formatDocuments :: "'i rawItem list \<Rightarrow> 'i document list" where
  "formatDocuments rawData =
     map (\<lambda>item.
       \<lparr> pageContent = ''Title: '' @ rawItem.title item @ [CHR 0x0A] @ ''Content: '' @ rawItem.content item,
         metadata = \<lparr> metadata.id' = rawItem.id' item, metadata.title = rawItem.title item \<rparr> \<rparr>) rawData"

subsection \<open>Cosine similarity\<close>

definition cosineSimilarity :: "vec \<Rightarrow> vec \<Rightarrow> jsnum" where
  "cosineSimilarity a b =
     (let dotProduct = js_reduce a (\<lambda>sum val i. js_add sum (js_mul val (num_at b i))) (Fin 0);
          magnitudeA = js_sqrt (js_reduce a (\<lambda>sum val i. js_add sum (js_mul val val)) (Fin 0));
          magnitudeB = js_sqrt (js_reduce b (\<lambda>sum val i. js_add sum (js_mul val val)) (Fin 0))
      in js_div dotProduct (js_mul magnitudeA magnitudeB))"

text \<open>The magnitude of a vector, as \<open>cosineSimilarity\<close> computes it.\<close>

definition magnitude :: "vec \<Rightarrow> jsnum" where
  "magnitude v = js_sqrt (js_reduce v (\<lambda>sum val i. js_add sum (js_mul val val)) (Fin 0))"

subsection \<open>The vector store\<close>

text \<open>
  The errors: \<open>TypeError\<close> is what calling an extractor that was never set gives;
  \<open>InvariantError\<close> and \<open>DimensionMismatchError\<close> are the errors the specification
  names. No function of the program raises the last two.
\<close>

datatype error = TypeError | InvariantError | DimensionMismatchError

text \<open>The extractor maps a text to the data of its embedding; \<open>getEmbeddings\<close> copies
  the data into an array.\<close>

type_synonym extractor = "string \<Rightarrow> vec"

definition getEmbeddings :: "extractor \<Rightarrow> string \<Rightarrow> vec" where
  "getEmbeddings extractor text = extractor text"

record 'd store =
  vectors :: "vec list"
  documents :: "'d list"
  extractor :: "extractor option"

text \<open>The constructor: the extractor is not set.\<close>

definition CustomVectorStore :: "'d store" where
  "CustomVectorStore = \<lparr> vectors = [], documents = [], extractor = None \<rparr>"

text \<open>A method returns its completion (\<open>Inl\<close> a rejection) and the store after it.\<close>

definition addVectors :: "'d store \<Rightarrow> vec list \<Rightarrow> 'd list \<Rightarrow> (error + unit) \<times> 'd store" where
  "addVectors this vs ds = (Inr (), this\<lparr> vectors := vs, documents := ds \<rparr>)"

definition setExtractor :: "'d store \<Rightarrow> extractor \<Rightarrow> 'd store" where
  "setExtractor this ex = this\<lparr> extractor := Some ex \<rparr>"

text \<open>Lines 63 to 70 of \<open>similaritySearch\<close>: the ranking, from the embedding of the query.
  A returned \<open>None\<close> is \<open>undefined\<close>, read from \<open>documents\<close> beyond its length.\<close>

definition similaritySearch_vec :: "'d store \<Rightarrow> vec \<Rightarrow> int \<Rightarrow> 'd option list" where
  "similaritySearch_vec this queryEmbedding k =
     (let similarities = js_map_idx (vectors this) (\<lambda>vector index.
            (cosineSimilarity queryEmbedding vector, elem_at (documents this) index));
          sorted = js_sort (\<lambda>a b. js_sub (fst b) (fst a)) similarities
      in map snd (js_slice sorted 0 k))"

text \<open>\<open>similaritySearch(query, k = 3)\<close>: \<open>None\<close> for \<open>k\<close> is the argument left out, and
  \<open>k\<close> is an integer. With no extractor set, \<open>getEmbeddings\<close> calls \<open>undefined\<close> and the
  search is rejected. The method assigns to no field: the store it returns is \<open>this\<close>.\<close>

definition similaritySearch ::
  "'d store \<Rightarrow> string \<Rightarrow> int option \<Rightarrow> (error + 'd option list) \<times> 'd store" where
  "similaritySearch this query kopt =
     (let k = (case kopt of None \<Rightarrow> 3 | Some k' \<Rightarrow> k') in
      case extractor this of
        None \<Rightarrow> (Inl TypeError, this)
      | Some ex \<Rightarrow> (Inr (similaritySearch_vec this (getEmbeddings ex query) k), this))"

subsection \<open>Indexing and querying\<close>

definition createVectorStore :: "'i document list \<Rightarrow> extractor \<Rightarrow> error + 'i document store" where
  "createVectorStore docs ex =
     (let embeddings = map (\<lambda>doc. getEmbeddings ex (pageContent doc)) docs;
          vectorStore = setExtractor CustomVectorStore ex
      in case addVectors vectorStore embeddings docs of
           (Inl e, _) \<Rightarrow> Inl e
         | (Inr _, vectorStore') \<Rightarrow> Inr vectorStore')"

definition searchDocuments :: "'d store \<Rightarrow> string \<Rightarrow> (error + 'd option list) \<times> 'd store" where
  "searchDocuments vectorStore query = similaritySearch vectorStore query (Some 3)"

section \<open>Auxiliary notions for the statements\<close>

text \<open>The callbacks of the two reductions of \<open>cosineSimilarity\<close>, and the dot product it
  computes: the reduction runs over \<open>a\<close> and reads \<open>b\<close> by index.\<close>

definition dot_step :: "vec \<Rightarrow> jsnum \<Rightarrow> jsnum \<Rightarrow> nat \<Rightarrow> jsnum" where
  "dot_step b = (\<lambda>sum val i. js_add sum (js_mul val (num_at b i)))"

definition sq_step :: "jsnum \<Rightarrow> jsnum \<Rightarrow> nat \<Rightarrow> jsnum" where
  "sq_step = (\<lambda>sum val i. js_add sum (js_mul val val))"

definition dotProduct :: "vec \<Rightarrow> vec \<Rightarrow> jsnum" where
  "dotProduct a b = js_reduce a (dot_step b) (Fin 0)"

text \<open>The numbers an operation returns: the infinities, NaN, and the finite reals that
  are multiples of the smallest subnormal number.\<close>

definition on_grid :: "real \<Rightarrow> bool" where
  "on_grid x = (\<exists>n::int. x = of_int n * min_subnormal)"

definition is_double :: "jsnum \<Rightarrow> bool" where
  "is_double a = (case a of Fin x \<Rightarrow> on_grid x | _ \<Rightarrow> True)"

text \<open>Index \<open>i\<close> is ranked before index \<open>j\<close> under the similarities \<open>s\<close>: its similarity is
  at least that of \<open>j\<close>, and on a tie it is the earlier index.\<close>

definition ranks_before :: "(nat \<Rightarrow> jsnum) \<Rightarrow> nat \<Rightarrow> nat \<Rightarrow> bool" where
  "ranks_before s i j = (js_ge (s i) (s j) \<and> (s i = s j \<longrightarrow> i < j))"

section \<open>Lemmas\<close>

subsection \<open>Rounding\<close>

lemma min_subnormal_pos: "0 < min_subnormal"
  unfolding min_subnormal_def by (rule divide_pos_pos) simp_all

lemma round_even_ge_floor: "\<lfloor>y\<rfloor> \<le> round_even y"
  unfolding round_even_def Let_def by auto

lemma round_even_le_ceiling: "round_even y \<le> \<lfloor>y\<rfloor> + 1"
  unfolding round_even_def Let_def by auto

lemma round_even_of_int: "round_even (of_int n) = n"
  unfolding round_even_def Let_def by simp

lemma round_even_pos: "1 \<le> y \<Longrightarrow> 1 \<le> round_even y"
proof -
  assume "1 \<le> y"
  then have "1 \<le> \<lfloor>y\<rfloor>" by (simp add: le_floor_iff)
  then show ?thesis using round_even_ge_floor[of y] by linarith
qed

lemma round_even_nonpos: "y \<le> 0 \<Longrightarrow> round_even y \<le> 0"
proof -
  assume y: "y \<le> 0"
  show ?thesis
  proof (cases "y = of_int \<lfloor>y\<rfloor>")
    case True
    then have "round_even y = \<lfloor>y\<rfloor>" by (metis round_even_of_int)
    moreover have "\<lfloor>y\<rfloor> \<le> 0" using y by (simp add: floor_le_iff)
    ultimately show ?thesis by simp
  next
    case False
    then have "of_int \<lfloor>y\<rfloor> < y" by (metis of_int_floor_le order_less_le)
    then have "real_of_int \<lfloor>y\<rfloor> < 0" using y by linarith
    then have "\<lfloor>y\<rfloor> < 0" by simp
    then show ?thesis using round_even_le_ceiling[of y] by linarith
  qed
qed

lemma ulp_pos: "0 < ulp x"
  by (simp add: ulp_def min_subnormal_pos)

lemma on_grid_0: "on_grid 0"
  unfolding on_grid_def by (rule exI[of _ 0]) simp

lemma rnd_grid:
  assumes "rnd x = Fin r"
  shows "on_grid r"
proof (cases "x = 0")
  case True
  then show ?thesis using assms on_grid_0 by (simp add: rnd_def)
next
  case False
  then have "r = ulp x * of_int (round_even (x / ulp x))"
    using assms unfolding rnd_def Let_def by (simp split: if_splits)
  then have "r = of_int (2 ^ nat (binade x + 1022) * round_even (x / ulp x)) * min_subnormal"
    by (simp add: ulp_def)
  then show ?thesis unfolding on_grid_def by blast
qed

lemma two_powr_int:
  assumes "- 1022 \<le> e"
  shows "(2::real) powr of_int e * 2 powr 1022 = 2 ^ nat (e + 1022)"
proof -
  have "(2::real) powr of_int (e + 1022) = 2 powr (of_int e + 1022)" by simp
  also have "\<dots> = 2 powr of_int e * 2 powr 1022" by (rule powr_add)
  finally have "(2::real) powr of_int e * 2 powr 1022 = 2 powr of_int (e + 1022)" by simp
  also have "\<dots> = 2 ^ nat (e + 1022)"
    using assms powr_real_of_int[of 2 "e + 1022"] by (simp del: of_int_add)
  finally show ?thesis .
qed

lemma min_subnormal_powr: "min_subnormal = 2 powr (- 1074)"
proof -
  have "(2::real) powr 1074 = 2 ^ 1074" using powr_realpow[of 2 1074] by simp
  then show ?thesis unfolding min_subnormal_def by (simp only: powr_minus inverse_eq_divide)
qed

lemma ulp_le_binade_start:
  assumes "- 1022 \<le> e"
  shows "2 ^ nat (e + 1022) * min_subnormal \<le> (2::real) powr of_int e"
proof -
  have "2 ^ nat (e + 1022) * min_subnormal = 2 powr of_int e * (2 powr 1022 * 2 powr (- 1074))"
    unfolding two_powr_int[OF assms, symmetric] min_subnormal_powr by (simp only: mult.assoc)
  also have "(2::real) powr 1022 * 2 powr (- 1074) = 2 powr (- 52)"
    by (simp only: powr_add[symmetric]) simp
  also have "(2::real) powr of_int e * 2 powr (- 52) \<le> 2 powr of_int e * 1"
  proof (intro mult_left_mono)
    have "(2::real) powr (- 52) \<le> 2 powr 0" by (intro powr_mono) simp_all
    then show "(2::real) powr (- 52) \<le> 1" by simp
  qed simp
  finally show ?thesis by simp
qed

lemma ulp_le:
  assumes d: "min_subnormal \<le> \<bar>d\<bar>"
  shows "ulp d \<le> \<bar>d\<bar>"
proof -
  have pos: "0 < \<bar>d\<bar>" using d min_subnormal_pos by linarith
  show ?thesis
  proof (cases "- 1022 \<le> \<lfloor>log 2 \<bar>d\<bar>\<rfloor>")
    case True
    let ?e = "\<lfloor>log 2 \<bar>d\<bar>\<rfloor>"
    have b: "binade d = ?e" using True by (simp add: binade_def)
    have "2 powr of_int ?e \<le> \<bar>d\<bar>"
      using floor_log_eq_powr_iff[of "\<bar>d\<bar>" 2 ?e] pos by simp
    then show ?thesis unfolding ulp_def b using ulp_le_binade_start[OF True] by linarith
  next
    case False
    then have "binade d = - 1022" by (simp add: binade_def)
    then show ?thesis using d by (simp add: ulp_def)
  qed
qed

lemma rnd_pos:
  assumes "min_subnormal \<le> d"
  shows "rnd d = PInf \<or> (\<exists>r. rnd d = Fin r \<and> 0 < r)"
proof -
  have dpos: "0 < d" using assms min_subnormal_pos by linarith
  have "ulp d \<le> d" using ulp_le[of d] assms dpos by simp
  then have "1 \<le> d / ulp d" using ulp_pos[of d] by (simp add: le_divide_eq)
  then have "1 \<le> round_even (d / ulp d)" by (rule round_even_pos)
  then have "0 < ulp d * of_int (round_even (d / ulp d))"
    using ulp_pos[of d] by (simp add: zero_less_mult_iff)
  then show ?thesis using dpos unfolding rnd_def Let_def by auto
qed

lemma rnd_nonpos:
  assumes "d \<le> 0"
  shows "rnd d = NInf \<or> (\<exists>r. rnd d = Fin r \<and> r \<le> 0)"
proof (cases "d = 0")
  case True
  then show ?thesis by (simp add: rnd_def)
next
  case False
  have "d / ulp d \<le> 0" using assms ulp_pos[of d] by (simp add: divide_le_0_iff)
  then have "round_even (d / ulp d) \<le> 0" by (rule round_even_nonpos)
  then have "ulp d * of_int (round_even (d / ulp d)) \<le> 0"
    using ulp_pos[of d] by (simp add: mult_le_0_iff)
  then show ?thesis using assms False unfolding rnd_def Let_def by auto
qed

lemma grid_gap:
  assumes "on_grid x" "on_grid y" "x < y"
  shows "min_subnormal \<le> y - x"
proof -
  obtain m n :: int where x: "x = of_int m * min_subnormal" and y: "y = of_int n * min_subnormal"
    using assms unfolding on_grid_def by blast
  have "of_int m * min_subnormal < of_int n * min_subnormal" using assms(3) x y by simp
  then have "m < n" using min_subnormal_pos by (simp add: mult_less_cancel_right)
  then have "1 \<le> n - m" by simp
  then have "(1::real) \<le> of_int (n - m)" by (metis of_int_1_le_iff)
  then have "1 * min_subnormal \<le> of_int (n - m) * min_subnormal"
    using min_subnormal_pos by (intro mult_right_mono) simp_all
  then show ?thesis unfolding x y by (simp add: left_diff_distrib)
qed

lemma rnd_0: "rnd 0 = Fin 0"
  by (simp add: rnd_def)

text \<open>A value with at most 53 significant bits in its binade is returned as it is.\<close>

lemma rnd_exact:
  assumes "2 powr of_int e \<le> \<bar>x\<bar>" "\<bar>x\<bar> < 2 powr of_int (e + 1)" "- 1022 \<le> e" "e \<le> 1023"
    and "x = of_int k * (2 ^ nat (e + 1022) * min_subnormal)"
  shows "rnd x = Fin x"
proof -
  have pos: "0 < \<bar>x\<bar>" using assms(1) by (smt (verit) powr_gt_zero)
  have "\<lfloor>log 2 \<bar>x\<bar>\<rfloor> = e"
    using floor_log_eq_powr_iff[of "\<bar>x\<bar>" 2 e] pos assms(1,2) by simp
  then have b: "binade x = e" using assms(3) by (simp add: binade_def)
  have u: "ulp x = 2 ^ nat (e + 1022) * min_subnormal" by (simp add: ulp_def b)
  have upos: "0 < ulp x" by (rule ulp_pos)
  have xk: "x = of_int k * ulp x" using assms(5) unfolding u .
  have "of_int k * ulp x / ulp x = real_of_int k"
    using upos by (intro nonzero_mult_div_cancel_right) simp
  then have "x / ulp x = of_int k" using xk by simp
  then have "ulp x * of_int (round_even (x / ulp x)) = ulp x * of_int k"
    by (simp only: round_even_of_int)
  then have r: "ulp x * of_int (round_even (x / ulp x)) = x"
    using xk by (simp only: mult.commute)
  have "2 powr of_int (e + 1) \<le> (2::real) powr 1024"
    using assms(4) by (intro powr_mono) simp_all
  moreover have "(2::real) powr 1024 = overflow_bound"
    unfolding overflow_bound_def using powr_realpow[of 2 1024] by simp
  ultimately have "\<bar>x\<bar> < overflow_bound" using assms(2) by linarith
  then show ?thesis using pos r unfolding rnd_def Let_def by auto
qed

lemma rnd_1: "rnd 1 = Fin 1"
proof (rule rnd_exact[of 0 _ "2 ^ 52"])
  show "1 = real_of_int (2 ^ 52) * (2 ^ nat (0 + 1022) * min_subnormal)"
    by (simp add: min_subnormal_def)
qed simp_all

lemma rnd_m1: "rnd (- 1) = Fin (- 1)"
proof (rule rnd_exact[of 0 _ "- (2 ^ 52)"])
  show "- 1 = real_of_int (- (2 ^ 52)) * (2 ^ nat (0 + 1022) * min_subnormal)"
    by (simp add: min_subnormal_def)
qed simp_all

lemmas rnd_simps = rnd_0 rnd_1 rnd_m1

text \<open>Results that are not doubles: the nearest double, overflow and underflow.\<close>

lemma round_even_near:
  assumes "\<bar>y - of_int k\<bar> < 1 / 2"
  shows "round_even y = k"
proof -
  have lo: "of_int k - 1 / 2 < y" and hi: "y < of_int k + 1 / 2" using assms by linarith+
  have "\<lfloor>y\<rfloor> = k \<or> \<lfloor>y\<rfloor> = k - 1"
  proof -
    have "k - 1 \<le> \<lfloor>y\<rfloor>" using lo by (simp add: le_floor_iff) 
    moreover have "\<lfloor>y\<rfloor> \<le> k" using hi by (simp add: floor_le_iff)
    ultimately show ?thesis by linarith
  qed
  then show ?thesis
  proof
    assume f: "\<lfloor>y\<rfloor> = k"
    then have "y - of_int \<lfloor>y\<rfloor> < 1 / 2" using hi by simp
    then show ?thesis unfolding round_even_def Let_def using f by simp
  next
    assume f: "\<lfloor>y\<rfloor> = k - 1"
    then have "1 / 2 < y - of_int \<lfloor>y\<rfloor>" using lo by simp
    then show ?thesis unfolding round_even_def Let_def using f by simp
  qed
qed

lemma binade_eq:
  assumes "2 powr of_int e \<le> \<bar>x\<bar>" "\<bar>x\<bar> < 2 powr of_int (e + 1)" "- 1022 \<le> e"
  shows "binade x = e"
proof -
  have pos: "0 < \<bar>x\<bar>" using assms(1) by (smt (verit) powr_gt_zero)
  have "\<lfloor>log 2 \<bar>x\<bar>\<rfloor> = e"
    using floor_log_eq_powr_iff[of "\<bar>x\<bar>" 2 e] pos assms(1,2) by simp
  then show ?thesis using assms(3) by (simp add: binade_def)
qed

lemma rnd_near:
  assumes "2 powr of_int e \<le> \<bar>x\<bar>" "\<bar>x\<bar> < 2 powr of_int (e + 1)" "- 1022 \<le> e"
    and u: "u = 2 ^ nat (e + 1022) * min_subnormal"
    and near: "\<bar>x - of_int k * u\<bar> < u / 2"
    and bound: "\<bar>of_int k * u\<bar> < overflow_bound"
  shows "rnd x = Fin (of_int k * u)"
proof -
  have pos: "0 < \<bar>x\<bar>" using assms(1) by (smt (verit) powr_gt_zero)
  have ux: "ulp x = u" unfolding ulp_def u binade_eq[OF assms(1-3)] ..
  have upos: "0 < u" using ulp_pos[of x] ux by simp
  have "\<bar>x - of_int k * u\<bar> / u < (u / 2) / u"
    using near upos by (intro divide_strict_right_mono)
  moreover have "\<bar>x - of_int k * u\<bar> / u = \<bar>x / u - of_int k\<bar>"
  proof -
    have "\<bar>x - of_int k * u\<bar> / u = \<bar>(x - of_int k * u) / u\<bar>" using upos by simp
    also have "(x - of_int k * u) / u = x / u - of_int k"
      using upos by (simp add: diff_divide_distrib)
    finally show ?thesis .
  qed
  moreover have "(u / 2) / u = 1 / 2" using upos by simp
  ultimately have "\<bar>x / u - of_int k\<bar> < 1 / 2" by simp
  then have "round_even (x / u) = k" by (rule round_even_near)
  then have "ulp x * of_int (round_even (x / ulp x)) = of_int k * u"
    unfolding ux by (simp only: mult.commute)
  then show ?thesis using pos bound unfolding rnd_def Let_def by auto
qed

lemma rnd_small_int:
  fixes n :: int
  assumes "2 ^ m \<le> \<bar>n\<bar>" "\<bar>n\<bar> < 2 ^ Suc m" "m \<le> 52"
  shows "rnd (of_int n) = Fin (of_int n)"
proof (rule rnd_exact[of "int m" _ "n * 2 ^ (52 - m)"])
  have p: "(2::real) powr of_int (int m) = 2 ^ m" using powr_realpow[of 2 m] by simp
  have "(2::real) ^ m \<le> of_int \<bar>n\<bar>" using assms(1) by (metis of_int_le_iff of_int_numeral of_int_power)
  then show "2 powr real_of_int (int m) \<le> \<bar>real_of_int n\<bar>" using p by simp
  have p': "(2::real) powr of_int (int m + 1) = 2 ^ Suc m"
    using powr_realpow[of 2 "Suc m"] by (simp add: add.commute)
  have "of_int \<bar>n\<bar> < (2::real) ^ Suc m" using assms(2) by (metis of_int_less_iff of_int_numeral of_int_power)
  then show "\<bar>real_of_int n\<bar> < 2 powr real_of_int (int m + 1)" using p' by simp
  show "- 1022 \<le> int m" by simp
  show "int m \<le> 1023" using assms(3) by simp
  have "(2::real) ^ (52 - m) * 2 ^ (m + 1022) = 2 ^ 1074"
    using assms(3) by (simp add: power_add[symmetric] del: power_Suc)
  then have "(2::real) ^ (52 - m) * (2 ^ (m + 1022) * min_subnormal) = 1"
    unfolding min_subnormal_def by (simp only: mult.assoc[symmetric]) simp
  then have "real_of_int n * ((2::real) ^ (52 - m) * (2 ^ (m + 1022) * min_subnormal)) = real_of_int n"
    by simp
  moreover have "nat (int m + 1022) = m + 1022" by simp
  ultimately show "real_of_int n = real_of_int (n * 2 ^ (52 - m)) * (2 ^ nat (int m + 1022) * min_subnormal)"
    by (simp only: of_int_mult of_int_power of_int_numeral mult.assoc)
qed

lemma rnd_2: "rnd 2 = Fin 2" using rnd_small_int[of 1 2] by simp
lemma rnd_3: "rnd 3 = Fin 3" using rnd_small_int[of 1 3] by simp
lemma rnd_6: "rnd 6 = Fin 6" using rnd_small_int[of 2 6] by simp
lemma rnd_9: "rnd 9 = Fin 9" using rnd_small_int[of 3 9] by simp
lemma rnd_18: "rnd 18 = Fin 18" using rnd_small_int[of 4 18] by simp

lemma ulp_binade:
  assumes "- 1022 \<le> e"
  shows "2 ^ nat (e + 1022) * min_subnormal * 2 ^ 52 = (2::real) powr of_int e"
proof -
  have "2 ^ nat (e + 1022) * min_subnormal = 2 powr of_int e * (2 powr 1022 * 2 powr (- 1074))"
    unfolding two_powr_int[OF assms, symmetric] min_subnormal_powr by (simp only: mult.assoc)
  also have "(2::real) powr 1022 * 2 powr (- 1074) = 2 powr (- 52)"
    by (simp only: powr_add[symmetric]) simp
  finally have "2 ^ nat (e + 1022) * min_subnormal * 2 ^ 52 =
      2 powr of_int e * (2 powr (- 52) * 2 ^ 52)" by (simp only: mult.assoc)
  moreover have "(2::real) powr (- 52) * 2 ^ 52 = 1"
    using powr_realpow[of 2 52] by (simp add: powr_minus)
  ultimately show ?thesis by simp
qed

lemma rnd_overflow:
  assumes "overflow_bound \<le> x"
  shows "rnd x = PInf"
proof -
  have ob: "(2::real) powr 1024 = overflow_bound"
    unfolding overflow_bound_def using powr_realpow[of 2 1024] by simp
  have xpos: "0 < x" using assms ob by (smt (verit) powr_gt_zero)
  let ?e = "\<lfloor>log 2 \<bar>x\<bar>\<rfloor>"
  have "(1024::real) \<le> log 2 x" using assms ob xpos by (simp add: le_log_iff)
  then have e: "1024 \<le> ?e" using xpos by (simp add: le_floor_iff)
  then have b: "binade x = ?e" by (simp add: binade_def)
  have lo: "2 powr of_int ?e \<le> x"
    using floor_log_eq_powr_iff[of "\<bar>x\<bar>" 2 ?e] xpos by simp
  have u52: "ulp x * 2 ^ 52 = 2 powr of_int ?e"
    unfolding ulp_def b using e by (intro ulp_binade) simp
  have upos: "0 < ulp x" by (rule ulp_pos)
  have "ulp x * 2 ^ 52 \<le> x" using lo u52 by simp
  then have "2 ^ 52 \<le> x / ulp x" using upos by (simp add: le_divide_eq mult.commute)
  then have "(2 ^ 52 :: int) \<le> \<lfloor>x / ulp x\<rfloor>" by (simp add: le_floor_iff)
  then have "(2 ^ 52 :: int) \<le> round_even (x / ulp x)"
    using round_even_ge_floor[of "x / ulp x"] by linarith
  then have "(2 ^ 52 :: real) \<le> of_int (round_even (x / ulp x))"
    by (metis of_int_le_iff of_int_numeral of_int_power)
  then have "ulp x * 2 ^ 52 \<le> ulp x * of_int (round_even (x / ulp x))"
    using upos by (intro mult_left_mono) simp_all
  moreover have "overflow_bound \<le> 2 powr of_int ?e"
    unfolding ob[symmetric] using e by (intro powr_mono) simp_all
  ultimately have "overflow_bound \<le> \<bar>ulp x * of_int (round_even (x / ulp x))\<bar>"
    using u52 by linarith
  then show ?thesis using xpos unfolding rnd_def Let_def by simp
qed

lemma rnd_underflow:
  assumes "0 < x" "x < min_subnormal / 2"
  shows "rnd x = Fin 0"
proof -
  have "min_subnormal < 2 powr (- 1022)"
    unfolding min_subnormal_powr by (intro powr_less_mono) simp_all
  then have "x < 2 powr (- 1022)" using assms(2) min_subnormal_pos by linarith
  then have "log 2 x < - 1022" using assms(1) by (simp add: log_less_iff)
  then have "\<lfloor>log 2 \<bar>x\<bar>\<rfloor> < - 1022" using assms(1) by (simp add: floor_less_iff)
  then have "binade x = - 1022" by (simp add: binade_def)
  then have u: "ulp x = min_subnormal" by (simp add: ulp_def)
  have "x / min_subnormal < 1 / 2" using assms(2) min_subnormal_pos by (simp add: divide_less_eq)
  moreover have "0 < x / min_subnormal" using assms(1) min_subnormal_pos by simp
  ultimately have "\<bar>x / min_subnormal - of_int 0\<bar> < 1 / 2" by simp
  then have "round_even (x / min_subnormal) = 0" by (rule round_even_near)
  then show ?thesis using assms(1) unfolding rnd_def Let_def u
    by (simp add: overflow_bound_def)
qed

lemma abs_diff_less: "c - h < s \<Longrightarrow> s < c + h \<Longrightarrow> \<bar>s - c\<bar> < (h::real)"
  by linarith

lemma rnd_sqrt_2: "rnd (sqrt 2) = Fin (6369051672525773 / 2 ^ 52)"
proof -
  have lo: "12738103345051545 / 2 ^ 53 < sqrt 2"
    by (rule real_less_rsqrt) (simp add: power2_eq_square)
  have hi: "sqrt 2 < 12738103345051547 / 2 ^ 53"
    by (rule real_less_lsqrt) (simp_all add: power2_eq_square)
  have "rnd (sqrt 2) = Fin (of_int 6369051672525773 * (1 / 2 ^ 52))"
  proof (rule rnd_near[of 0])
    show "2 powr real_of_int 0 \<le> \<bar>sqrt 2\<bar>" by simp
    have "sqrt 2 < 2" by (rule real_less_lsqrt) simp_all
    then show "\<bar>sqrt 2\<bar> < 2 powr real_of_int (0 + 1)" by simp
    show "(1::real) / 2 ^ 52 = 2 ^ nat (0 + 1022) * min_subnormal"
      by (simp add: min_subnormal_def)
    have l: "real_of_int 6369051672525773 * (1 / 2 ^ 52) - 1 / 2 ^ 52 / 2 =
        12738103345051545 / 2 ^ 53" by simp
    have h: "real_of_int 6369051672525773 * (1 / 2 ^ 52) + 1 / 2 ^ 52 / 2 =
        12738103345051547 / 2 ^ 53" by simp
    show "\<bar>sqrt 2 - real_of_int 6369051672525773 * (1 / 2 ^ 52)\<bar> < 1 / 2 ^ 52 / 2"
      by (rule abs_diff_less) (simp_all only: l h lo hi)
    show "\<bar>real_of_int 6369051672525773 * (1 / 2 ^ 52)\<bar> < overflow_bound"
      by (simp add: overflow_bound_def)
  qed simp
  then show ?thesis by simp
qed

lemma rnd_sqrt_18: "rnd (sqrt 18) = Fin (4776788754394329 / 2 ^ 50)"
proof -
  have lo: "9553577508788657 / 2 ^ 51 < sqrt 18"
    by (rule real_less_rsqrt) (simp add: power2_eq_square)
  have hi: "sqrt 18 < 9553577508788659 / 2 ^ 51"
    by (rule real_less_lsqrt) (simp_all add: power2_eq_square)
  have "rnd (sqrt 18) = Fin (of_int 4776788754394329 * (1 / 2 ^ 50))"
  proof (rule rnd_near[of 2])
    have "4 < sqrt 18" by (rule real_less_rsqrt) simp
    then show "2 powr real_of_int 2 \<le> \<bar>sqrt 18\<bar>" by simp
    have "sqrt 18 < 8" by (rule real_less_lsqrt) simp_all
    then show "\<bar>sqrt 18\<bar> < 2 powr real_of_int (2 + 1)" by simp
    show "(1::real) / 2 ^ 50 = 2 ^ nat (2 + 1022) * min_subnormal"
      by (simp add: min_subnormal_def)
    have l: "real_of_int 4776788754394329 * (1 / 2 ^ 50) - 1 / 2 ^ 50 / 2 =
        9553577508788657 / 2 ^ 51" by simp
    have h: "real_of_int 4776788754394329 * (1 / 2 ^ 50) + 1 / 2 ^ 50 / 2 =
        9553577508788659 / 2 ^ 51" by simp
    show "\<bar>sqrt 18 - real_of_int 4776788754394329 * (1 / 2 ^ 50)\<bar> < 1 / 2 ^ 50 / 2"
      by (rule abs_diff_less) (simp_all only: l h lo hi)
    show "\<bar>real_of_int 4776788754394329 * (1 / 2 ^ 50)\<bar> < overflow_bound"
      by (simp add: overflow_bound_def)
  qed simp
  then show ?thesis by simp
qed

lemma rnd_sq_sqrt_2:
  "rnd (6369051672525773 / 2 ^ 52 * (6369051672525773 / 2 ^ 52)) = Fin (4503599627370497 / 2 ^ 51)"
proof -
  let ?x = "6369051672525773 / 2 ^ 52 * (6369051672525773 / 2 ^ 52) :: real"
  have "rnd ?x = Fin (of_int 4503599627370497 * (1 / 2 ^ 51))"
  proof (rule rnd_near[of 1])
    show "2 powr real_of_int 1 \<le> \<bar>?x\<bar>" by simp
    show "\<bar>?x\<bar> < 2 powr real_of_int (1 + 1)" by simp
    show "(1::real) / 2 ^ 51 = 2 ^ nat (1 + 1022) * min_subnormal"
      by (simp add: min_subnormal_def)
    show "\<bar>?x - real_of_int 4503599627370497 * (1 / 2 ^ 51)\<bar> < 1 / 2 ^ 51 / 2" by simp
    show "\<bar>real_of_int 4503599627370497 * (1 / 2 ^ 51)\<bar> < overflow_bound"
      by (simp add: overflow_bound_def)
  qed simp
  then show ?thesis by simp
qed

lemma rnd_quotient_below_1:
  "rnd (2 / (4503599627370497 / 2 ^ 51)) = Fin (9007199254740990 / 2 ^ 53)"
proof -
  let ?x = "2 / (4503599627370497 / 2 ^ 51) :: real"
  have "rnd ?x = Fin (of_int 9007199254740990 * (1 / 2 ^ 53))"
  proof (rule rnd_near[of "- 1"])
    have "(2::real) powr (- 1) = 1 / 2" by (simp add: powr_minus)
    then show "2 powr real_of_int (- 1) \<le> \<bar>?x\<bar>" by simp
    show "\<bar>?x\<bar> < 2 powr real_of_int (- 1 + 1)" by simp
    show "(1::real) / 2 ^ 53 = 2 ^ nat (- 1 + 1022) * min_subnormal"
      by (simp add: min_subnormal_def)
    show "\<bar>?x - real_of_int 9007199254740990 * (1 / 2 ^ 53)\<bar> < 1 / 2 ^ 53 / 2" by simp
    show "\<bar>real_of_int 9007199254740990 * (1 / 2 ^ 53)\<bar> < overflow_bound"
      by (simp add: overflow_bound_def)
  qed simp
  then show ?thesis by simp
qed

lemma rnd_product_6:
  "rnd (6369051672525773 / 2 ^ 52 * (4776788754394329 / 2 ^ 50)) = Fin 6"
proof -
  let ?x = "6369051672525773 / 2 ^ 52 * (4776788754394329 / 2 ^ 50) :: real"
  have "rnd ?x = Fin (of_int 6755399441055744 * (1 / 2 ^ 50))"
  proof (rule rnd_near[of 2])
    show "2 powr real_of_int 2 \<le> \<bar>?x\<bar>" by simp
    show "\<bar>?x\<bar> < 2 powr real_of_int (2 + 1)" by simp
    show "(1::real) / 2 ^ 50 = 2 ^ nat (2 + 1022) * min_subnormal"
      by (simp add: min_subnormal_def)
    show "\<bar>?x - real_of_int 6755399441055744 * (1 / 2 ^ 50)\<bar> < 1 / 2 ^ 50 / 2" by simp
    show "\<bar>real_of_int 6755399441055744 * (1 / 2 ^ 50)\<bar> < overflow_bound"
      by (simp add: overflow_bound_def)
  qed simp
  then show ?thesis by simp
qed

lemma rnd_double: "is_double (rnd z)"
  by (cases "rnd z") (simp_all add: is_double_def rnd_grid)

lemma js_div_double: "is_double (js_div a b)"
  by (cases a; cases b) (simp_all add: is_double_def on_grid_0 rnd_double [unfolded is_double_def])


subsection \<open>Arithmetic of the special values\<close>

lemma js_mul_commute: "js_mul a b = js_mul b a"
  by (cases a; cases b; simp add: mult.commute)

lemma js_add_NaN_right: "js_add a NaN = NaN"
  by (cases a) simp_all

lemma js_mul_NaN_right: "js_mul a NaN = NaN"
  by (cases a) simp_all

text \<open>The comparator of the search, \<open>b - a\<close>, is positive exactly when \<open>b > a\<close>: the
  difference of two distinct doubles is at least the smallest subnormal number in
  absolute value, and does not round to zero.\<close>

lemma rnd_diff_sign:
  assumes "on_grid x" "on_grid y"
  shows "js_gt (rnd (y - x)) (Fin 0) = (x < y)"
proof (cases "x < y")
  case True
  then have "min_subnormal \<le> y - x" using assms by (intro grid_gap)
  then have "rnd (y - x) = PInf \<or> (\<exists>r. rnd (y - x) = Fin r \<and> 0 < r)" by (rule rnd_pos)
  then show ?thesis using True by auto
next
  case False
  then have "y - x \<le> 0" by simp
  then have "rnd (y - x) = NInf \<or> (\<exists>r. rnd (y - x) = Fin r \<and> r \<le> 0)" by (rule rnd_nonpos)
  then show ?thesis using False by auto
qed

lemma js_gt_sub:
  assumes "a \<noteq> NaN" "b \<noteq> NaN" "is_double a" "is_double b"
  shows "js_gt (js_sub b a) (Fin 0) = js_gt b a"
proof (cases a)
  case (Fin x)
  show ?thesis
  proof (cases b)
    case (Fin y)
    have "on_grid x" "on_grid y" using assms(3,4) \<open>a = Fin x\<close> Fin by (simp_all add: is_double_def)
    then show ?thesis using rnd_diff_sign[of x y] \<open>a = Fin x\<close> Fin by (simp add: js_sub_def)
  qed (use Fin assms in \<open>simp_all add: js_sub_def\<close>)
qed (use assms in \<open>cases b; simp add: js_sub_def\<close>)+

lemma js_gt_imp_ge: "js_gt a b \<Longrightarrow> js_ge a b \<and> a \<noteq> b"
  by (cases a; cases b; simp)

lemma not_js_gt_imp_ge: "a \<noteq> NaN \<Longrightarrow> b \<noteq> NaN \<Longrightarrow> \<not> js_gt b a \<Longrightarrow> js_ge a b"
  by (cases a; cases b; simp)

lemma js_ge_trans: "js_ge a b \<Longrightarrow> js_ge b c \<Longrightarrow> js_ge a c"
  by (cases a; cases b; cases c; simp)

subsection \<open>The dot product\<close>

lemma reduce_from_cong:
  "(\<And>acc x j. i \<le> j \<Longrightarrow> j < i + length xs \<Longrightarrow> f acc x j = g acc x j) \<Longrightarrow>
   reduce_from f i acc xs = reduce_from g i acc xs"
proof (induction xs arbitrary: i acc)
  case Nil
  then show ?case by simp
next
  case (Cons x xs)
  have "f acc x i = g acc x i" using Cons.prems[of i acc x] by simp
  moreover have "reduce_from f (Suc i) (g acc x i) xs = reduce_from g (Suc i) (g acc x i) xs"
    by (rule Cons.IH) (use Cons.prems in simp)
  ultimately show ?case by simp
qed

lemma dot_NaN_absorb: "reduce_from (dot_step b) i NaN xs = NaN"
  by (induction xs arbitrary: i) (simp_all add: dot_step_def)

lemma dot_short:
  "i \<le> length b \<Longrightarrow> length b < i + length xs \<Longrightarrow> reduce_from (dot_step b) i acc xs = NaN"
proof (induction xs arbitrary: i acc)
  case Nil
  then show ?case by simp
next
  case (Cons x xs)
  show ?case
  proof (cases "i = length b")
    case True
    then have "dot_step b acc x i = NaN"
      by (simp add: dot_step_def num_at_def js_mul_NaN_right js_add_NaN_right)
    then show ?thesis by (simp add: dot_NaN_absorb)
  next
    case False
    with Cons.prems have "Suc i \<le> length b" "length b < Suc i + length xs" by simp_all
    then show ?thesis using Cons.IH by simp
  qed
qed

lemma dot_zip:
  "length xs = length ys \<Longrightarrow>
   reduce_from (dot_step (pre @ ys)) (length pre) acc xs =
   foldl (\<lambda>s (x, y). js_add s (js_mul x y)) acc (zip xs ys)"
proof (induction xs ys arbitrary: pre acc rule: list_induct2)
  case Nil
  then show ?case by simp
next
  case (Cons x xs y ys)
  have "reduce_from (dot_step ((pre @ [y]) @ ys)) (length (pre @ [y])) (js_add acc (js_mul x y)) xs =
        foldl (\<lambda>s (x, y). js_add s (js_mul x y)) (js_add acc (js_mul x y)) (zip xs ys)"
    by (rule Cons.IH)
  then show ?case by (simp add: dot_step_def num_at_def)
qed

lemma foldl_zip_swap:
  "length xs = length ys \<Longrightarrow>
   foldl (\<lambda>s (x, y). js_add s (js_mul x y)) acc (zip xs ys) =
   foldl (\<lambda>s (x, y). js_add s (js_mul x y)) acc (zip ys xs)"
  by (induction xs ys arbitrary: acc rule: list_induct2) (simp_all add: js_mul_commute)

lemma dot_commute:
  assumes "length a = length b"
  shows "js_reduce a (dot_step b) (Fin 0) = js_reduce b (dot_step a) (Fin 0)"
proof -
  have "js_reduce a (dot_step b) (Fin 0) = foldl (\<lambda>s (x, y). js_add s (js_mul x y)) (Fin 0) (zip a b)"
    using dot_zip[OF assms, of "[]" "Fin 0"] by (simp add: js_reduce_def)
  also have "\<dots> = foldl (\<lambda>s (x, y). js_add s (js_mul x y)) (Fin 0) (zip b a)"
    by (rule foldl_zip_swap[OF assms])
  also have "\<dots> = js_reduce b (dot_step a) (Fin 0)"
    using dot_zip[OF assms[symmetric], of "[]" "Fin 0"] by (simp add: js_reduce_def)
  finally show ?thesis .
qed

lemma cosineSimilarity_alt:
  "cosineSimilarity a b = js_div (js_reduce a (dot_step b) (Fin 0)) (js_mul (magnitude a) (magnitude b))"
  by (simp add: cosineSimilarity_def magnitude_def dot_step_def)

subsection \<open>Vectors of magnitude zero\<close>

lemma magnitude_alt: "magnitude v = js_sqrt (reduce_from sq_step 0 (Fin 0) v)"
  by (simp add: magnitude_def js_reduce_def sq_step_def)

lemma sq_zero_vector: "\<forall>x\<in>set v. x = Fin 0 \<Longrightarrow> reduce_from sq_step i (Fin 0) v = Fin 0"
  by (induction v arbitrary: i) (simp_all add: rnd_simps sq_step_def)

lemma zero_vector_magnitude: "\<forall>x\<in>set v. x = Fin 0 \<Longrightarrow> magnitude v = Fin 0"
  by (simp add: rnd_simps magnitude_alt sq_zero_vector)

lemma dot_zero_left:
  "\<forall>v\<in>set xs. v = Fin 0 \<Longrightarrow> acc = Fin 0 \<or> acc = NaN \<Longrightarrow>
   reduce_from (dot_step b) i acc xs = Fin 0 \<or> reduce_from (dot_step b) i acc xs = NaN"
proof (induction xs arbitrary: i acc)
  case Nil
  then show ?case by simp
next
  case (Cons v vs)
  have v: "v = Fin 0" using Cons.prems(1) by simp
  have "js_mul v (num_at b i) = Fin 0 \<or> js_mul v (num_at b i) = NaN"
    unfolding v by (cases "num_at b i") (simp_all add: rnd_simps)
  then have "dot_step b acc v i = Fin 0 \<or> dot_step b acc v i = NaN"
    using Cons.prems(2) by (auto simp: rnd_simps dot_step_def)
  then show ?case using Cons.IH[of "dot_step b acc v i" "Suc i"] Cons.prems(1) by simp
qed

lemma dot_zero_right:
  "\<forall>v\<in>set b. v = Fin 0 \<Longrightarrow> acc = Fin 0 \<or> acc = NaN \<Longrightarrow>
   reduce_from (dot_step b) i acc xs = Fin 0 \<or> reduce_from (dot_step b) i acc xs = NaN"
proof (induction xs arbitrary: i acc)
  case Nil
  then show ?case by simp
next
  case (Cons v vs)
  have "num_at b i = Fin 0 \<or> num_at b i = NaN"
    using Cons.prems(1) by (simp add: num_at_def)
  then have "js_mul v (num_at b i) = Fin 0 \<or> js_mul v (num_at b i) = NaN"
    by (cases v) (auto simp: rnd_simps)
  then have "dot_step b acc v i = Fin 0 \<or> dot_step b acc v i = NaN"
    using Cons.prems(2) by (auto simp: rnd_simps dot_step_def)
  then show ?case using Cons.IH[of "dot_step b acc v i" "Suc i"] Cons.prems(1) by simp
qed

lemma js_div_zero_den:
  "d = Fin 0 \<or> d = NaN \<Longrightarrow> m = Fin 0 \<or> m = NaN \<Longrightarrow> js_div d m = NaN"
  by auto

lemma js_div_by_zero: "m = Fin 0 \<or> m = NaN \<Longrightarrow> js_div d m \<in> {NaN, PInf, NInf}"
  by (cases d) (auto split: if_splits)

lemma js_mul_zero_left: "js_mul (Fin 0) m = Fin 0 \<or> js_mul (Fin 0) m = NaN"
  by (cases m) (simp_all add: rnd_simps)

subsection \<open>Sorting and slicing\<close>

lemma mset_sort_insert: "mset (sort_insert cmp a bs) = add_mset a (mset bs)"
  by (induction bs) simp_all

lemma mset_js_sort: "mset (js_sort cmp xs) = mset xs"
  by (induction xs) (simp_all add: mset_sort_insert)

lemma set_js_sort: "set (js_sort cmp xs) = set xs"
  using mset_js_sort[of cmp xs] by (metis set_mset_mset)

lemma length_js_sort: "length (js_sort cmp xs) = length xs"
  using mset_js_sort[of cmp xs] by (metis size_mset)

lemma map_sort_insert:
  "map g (sort_insert (\<lambda>i j. cmp (g i) (g j)) a bs) = sort_insert cmp (g a) (map g bs)"
  by (induction bs) simp_all

lemma map_js_sort:
  "map g (js_sort (\<lambda>i j. cmp (g i) (g j)) xs) = js_sort cmp (map g xs)"
  by (induction xs) (simp_all add: map_sort_insert)

lemma js_map_idx_nth: "js_map_idx xs f = map (\<lambda>i. f (xs ! i) i) [0..<length xs]"
  by (rule nth_equalityI) (simp_all add: js_map_idx_def)

lemma js_slice_prefix: "js_slice xs 0 k = take (slice_index (length xs) k) xs"
  by (simp add: js_slice_def slice_index_def)

lemma sorted_sort_insert:
  assumes "s x \<noteq> NaN" and "\<forall>y\<in>set ys. s y \<noteq> NaN"
    and "\<forall>y\<in>set ys. x < y" and "sorted_wrt (ranks_before s) ys"
    and dbl: "\<And>i. is_double (s i)"
  shows "sorted_wrt (ranks_before s) (sort_insert (\<lambda>i j. js_sub (s j) (s i)) x ys)"
  using assms(2-4)
proof (induction ys)
  case Nil
  then show ?case by simp
next
  case (Cons y ys)
  let ?c = "\<lambda>i j. js_sub (s j) (s i)"
  have sy: "s y \<noteq> NaN" using Cons.prems(1) by simp
  have test: "js_gt (?c x y) (Fin 0) = js_gt (s y) (s x)"
    using assms(1) sy dbl dbl by (rule js_gt_sub)
  show ?case
  proof (cases "js_gt (s y) (s x)")
    case True
    have tail: "sorted_wrt (ranks_before s) (sort_insert ?c x ys)"
      using Cons.IH Cons.prems by simp
    have "ranks_before s y x"
      using js_gt_imp_ge[OF True] by (simp add: ranks_before_def)
    moreover have "\<forall>z\<in>set ys. ranks_before s y z" using Cons.prems(3) by simp
    ultimately have "\<forall>z\<in>set (sort_insert ?c x ys). ranks_before s y z"
      using mset_sort_insert[of ?c x ys] by (metis insert_iff set_mset_add_mset_insert set_mset_mset)
    then show ?thesis using True test tail by simp
  next
    case False
    have xy: "js_ge (s x) (s y)" using assms(1) sy False by (rule not_js_gt_imp_ge)
    have "x < y" using Cons.prems(2) by simp
    then have rxy: "ranks_before s x y" using xy by (simp add: ranks_before_def)
    have "ranks_before s x z" if "z \<in> set ys" for z
    proof -
      have "ranks_before s y z" using Cons.prems(3) that by simp
      then have "js_ge (s x) (s z)" using xy js_ge_trans by (auto simp: ranks_before_def)
      moreover have "x < z" using Cons.prems(2) that by simp
      ultimately show ?thesis by (simp add: ranks_before_def)
    qed
    then show ?thesis using False test rxy Cons.prems(3) by simp
  qed
qed

lemma sorted_js_sort:
  "sorted_wrt (<) is \<Longrightarrow> \<forall>i\<in>set is. s i \<noteq> NaN \<Longrightarrow> (\<And>i. is_double (s i)) \<Longrightarrow>
   sorted_wrt (ranks_before s) (js_sort (\<lambda>i j. js_sub (s j) (s i)) is)"
proof (induction "is")
  case Nil
  then show ?case by simp
next
  case (Cons x xs)
  have "sorted_wrt (ranks_before s) (js_sort (\<lambda>i j. js_sub (s j) (s i)) xs)"
    by (rule Cons.IH) (use Cons.prems in simp_all)
  moreover have "\<forall>y\<in>set (js_sort (\<lambda>i j. js_sub (s j) (s i)) xs). x < y"
    using Cons.prems(1) by (simp add: set_js_sort)
  moreover have "\<forall>y\<in>set (js_sort (\<lambda>i j. js_sub (s j) (s i)) xs). s y \<noteq> NaN"
    using Cons.prems(2) by (simp add: set_js_sort)
  moreover have "s x \<noteq> NaN" using Cons.prems(2) by simp
  ultimately show ?case using Cons.prems(3) by (simp add: sorted_sort_insert)
qed

lemma similaritySearch_vec_alt:
  "similaritySearch_vec this q k =
   map (elem_at (documents this))
     (take (slice_index (length (vectors this)) k)
       (js_sort (\<lambda>i j. js_sub (cosineSimilarity q (vectors this ! j)) (cosineSimilarity q (vectors this ! i)))
          [0..<length (vectors this)]))"
proof -
  let ?g = "\<lambda>i. (cosineSimilarity q (vectors this ! i), elem_at (documents this) i)"
  let ?cmp = "\<lambda>a b :: jsnum \<times> 'a option. js_sub (fst b) (fst a)"
  let ?n = "length (vectors this)"
  let ?js = "js_sort (\<lambda>i j. ?cmp (?g i) (?g j)) [0..<?n]"
  have "js_sort ?cmp (map ?g [0..<?n]) = map ?g ?js"
    by (rule map_js_sort[symmetric])
  then have "similaritySearch_vec this q k = map snd (take (slice_index ?n k) (map ?g ?js))"
    by (simp add: similaritySearch_vec_def js_map_idx_nth js_slice_prefix length_js_sort)
  also have "\<dots> = map (elem_at (documents this)) (take (slice_index ?n k) ?js)"
    by (simp add: take_map comp_def)
  finally show ?thesis by simp
qed

lemma cosineSimilarity_double: "is_double (cosineSimilarity a b)"
  by (simp add: cosineSimilarity_alt js_div_double)

lemma cosineSimilarity_unequal_not_symmetric:
  "cosineSimilarity [Fin 1, Fin 0] [Fin 1] \<noteq> cosineSimilarity [Fin 1] [Fin 1, Fin 0]"
  by (simp add: rnd_simps cosineSimilarity_def js_reduce_def num_at_def)

subsection \<open>Double arithmetic at work\<close>

text \<open>
  The similarity of \<open>[1, 1]\<close> to itself is \<open>0.9999999999999998\<close>, that of \<open>[1, 1]\<close>
  to \<open>[3, 3]\<close> is \<open>1\<close>: the search ranks the second document first. Squares that
  overflow give the similarity NaN; squares that underflow give a magnitude zero to a
  vector that is not zero, and the similarity \<open>Infinity\<close>.
\<close>

lemma cosineSimilarity_rounded_below_1:
  "cosineSimilarity [Fin 1, Fin 1] [Fin 1, Fin 1] = Fin (9007199254740990 / 2 ^ 53)"
proof -
  have dot: "js_reduce [Fin 1, Fin 1] (dot_step [Fin 1, Fin 1]) (Fin 0) = Fin 2"
    by (simp add: rnd_simps js_reduce_def dot_step_def num_at_def rnd_2)
  have "reduce_from sq_step 0 (Fin 0) [Fin 1, Fin 1] = Fin 2"
    by (simp add: rnd_simps sq_step_def rnd_2)
  then have mag: "magnitude [Fin 1, Fin 1] = Fin (6369051672525773 / 2 ^ 52)"
    by (simp add: magnitude_alt rnd_sqrt_2)
  have den: "js_mul (magnitude [Fin 1, Fin 1]) (magnitude [Fin 1, Fin 1]) =
      Fin (4503599627370497 / 2 ^ 51)"
    unfolding mag by (simp only: js_mul.simps rnd_sq_sqrt_2)
  have "js_div (Fin 2) (Fin (4503599627370497 / 2 ^ 51)) = Fin (9007199254740990 / 2 ^ 53)"
    using rnd_quotient_below_1 by simp
  then show ?thesis unfolding cosineSimilarity_alt dot den .
qed

lemma cosineSimilarity_rounded_to_1:
  "cosineSimilarity [Fin 1, Fin 1] [Fin 3, Fin 3] = Fin 1"
proof -
  have dot: "js_reduce [Fin 1, Fin 1] (dot_step [Fin 3, Fin 3]) (Fin 0) = Fin 6"
    by (simp add: js_reduce_def dot_step_def num_at_def rnd_3 rnd_6)
  have "reduce_from sq_step 0 (Fin 0) [Fin 1, Fin 1] = Fin 2"
    by (simp add: rnd_simps sq_step_def rnd_2)
  then have magA: "magnitude [Fin 1, Fin 1] = Fin (6369051672525773 / 2 ^ 52)"
    by (simp add: magnitude_alt rnd_sqrt_2)
  have "reduce_from sq_step 0 (Fin 0) [Fin 3, Fin 3] = Fin 18"
    by (simp add: sq_step_def rnd_9 rnd_18)
  then have magB: "magnitude [Fin 3, Fin 3] = Fin (4776788754394329 / 2 ^ 50)"
    by (simp add: magnitude_alt rnd_sqrt_18)
  have den: "js_mul (magnitude [Fin 1, Fin 1]) (magnitude [Fin 3, Fin 3]) = Fin 6"
    unfolding magA magB by (simp only: js_mul.simps rnd_product_6)
  have "js_div (Fin 6) (Fin 6) = Fin 1" by (simp add: rnd_simps)
  then show ?thesis unfolding cosineSimilarity_alt dot den .
qed

lemma similaritySearch_rounded_order:
  "similaritySearch_vec
     \<lparr> vectors = [[Fin 1, Fin 1], [Fin 3, Fin 3]], documents = [''a'', ''b''],
       extractor = None \<rparr>
     [Fin 1, Fin 1] 2 = [Some ''b'', Some ''a'']"
proof -
  let ?a = "cosineSimilarity [Fin 1, Fin 1] [Fin 1, Fin 1]"
  let ?b = "cosineSimilarity [Fin 1, Fin 1] [Fin 3, Fin 3]"
  have "?a \<noteq> NaN" "?b \<noteq> NaN"
    by (simp_all add: cosineSimilarity_rounded_below_1 cosineSimilarity_rounded_to_1)
  then have "js_gt (js_sub ?b ?a) (Fin 0) = js_gt ?b ?a"
    using cosineSimilarity_double by (intro js_gt_sub)
  then have "js_gt (js_sub ?b ?a) (Fin 0)"
    by (simp add: cosineSimilarity_rounded_below_1 cosineSimilarity_rounded_to_1)
  then show ?thesis
    by (simp add: similaritySearch_vec_def js_map_idx_def elem_at_def js_slice_def
        slice_index_def upt_rec)
qed

lemma cosineSimilarity_overflow_gen:
  assumes "overflow_bound \<le> x * x"
  shows "cosineSimilarity [Fin x] [Fin x] = NaN"
proof -
  have "rnd (x * x) = PInf" using assms by (rule rnd_overflow)
  then show ?thesis by (simp add: cosineSimilarity_def js_reduce_def num_at_def)
qed

lemma cosineSimilarity_overflow:
  "cosineSimilarity [Fin (2 ^ 600)] [Fin (2 ^ 600)] = NaN"
  by (rule cosineSimilarity_overflow_gen) (simp add: overflow_bound_def)

lemma cosineSimilarity_underflow_gen:
  assumes "0 < x" "x * x < min_subnormal / 2" "rnd x = Fin x"
  shows "magnitude [Fin x] = Fin 0 \<and> cosineSimilarity [Fin x] [Fin 1] = PInf"
proof -
  have "0 < x * x" using assms(1) by simp
  then have sq: "rnd (x * x) = Fin 0" using assms(2) by (rule rnd_underflow)
  have "magnitude [Fin x] = Fin 0" by (simp add: rnd_simps magnitude_def js_reduce_def sq)
  moreover have "cosineSimilarity [Fin x] [Fin 1] = PInf"
    using assms(1) by (simp add: rnd_simps cosineSimilarity_def js_reduce_def num_at_def sq assms(3))
  ultimately show ?thesis by simp
qed

lemma cosineSimilarity_underflow:
  "magnitude [Fin (1 / 2 ^ 600)] = Fin 0 \<and>
   cosineSimilarity [Fin (1 / 2 ^ 600)] [Fin 1] = PInf"
proof (rule cosineSimilarity_underflow_gen)
  show "(1::real) / 2 ^ 600 * (1 / 2 ^ 600) < min_subnormal / 2"
    by (simp add: min_subnormal_def)
  show "rnd (1 / 2 ^ 600) = Fin (1 / 2 ^ 600)"
  proof (rule rnd_exact[of "- 600" _ "2 ^ 52"])
    have p: "(2::real) powr real_of_int (- 600) = 1 / 2 ^ 600"
      using powr_realpow[of 2 600] by (simp add: powr_minus inverse_eq_divide)
    show "2 powr real_of_int (- 600) \<le> \<bar>1 / 2 ^ 600 :: real\<bar>" unfolding p by simp
    have p': "(2::real) powr real_of_int (- 600 + 1) = 1 / 2 ^ 599"
      using powr_realpow[of 2 599] by (simp add: powr_minus inverse_eq_divide)
    show "\<bar>1 / 2 ^ 600 :: real\<bar> < 2 powr real_of_int (- 600 + 1)" unfolding p' by simp
    show "(1::real) / 2 ^ 600 = real_of_int (2 ^ 52) * (2 ^ nat (- 600 + 1022) * min_subnormal)"
      by (simp add: min_subnormal_def)
  qed simp_all
qed simp

section \<open>Properties of the specification\<close>

subsection \<open>C1: the length of the result\<close>

text \<open>
  C1 says that the result of a search has length \<open>min(k, corpus size)\<close>, and is empty
  when \<open>k \<le> 0\<close>. The result is \<open>similarities.slice(0, k)\<close>, and a negative \<open>k\<close> counts
  from the end of the array: on three vectors, \<open>k = -1\<close> returns two documents.
\<close>

theorem similaritySearch_negative_k_counterexample:
  "similaritySearch_vec
     \<lparr> vectors = [[Fin 1, Fin 0], [Fin 0, Fin 1], [Fin 1, Fin 0]],
       documents = [''a'', ''b'', ''c''], extractor = None \<rparr>
     [Fin 1, Fin 0] (- 1) = [Some ''a'', Some ''c'']"
  by (simp add: rnd_simps similaritySearch_vec_def js_map_idx_def cosineSimilarity_def js_reduce_def
      num_at_def elem_at_def js_slice_def slice_index_def js_sub_def upt_rec)

text \<open>
  C1, amended: for every store, every query vector and every \<open>k \<ge> 0\<close>, the result has
  length \<open>min(k, number of stored vectors)\<close>, so it is empty for \<open>k = 0\<close>; it is empty
  for an empty store, whatever \<open>k\<close> is; and for \<open>k\<close> at least the number of stored
  vectors it holds the document of every index, each once.
\<close>

theorem similaritySearch_length:
  "(0 \<le> k \<longrightarrow>
      length (similaritySearch_vec this q k) = min (nat k) (length (vectors this))) \<and>
   (vectors this = [] \<longrightarrow> similaritySearch_vec this q k = []) \<and>
   (int (length (vectors this)) \<le> k \<longrightarrow>
      mset (similaritySearch_vec this q k) =
      mset (map (elem_at (documents this)) [0..<length (vectors this)]))"
proof -
  let ?n = "length (vectors this)"
  let ?js = "js_sort (\<lambda>i j. js_sub (cosineSimilarity q (vectors this ! j))
                 (cosineSimilarity q (vectors this ! i))) [0..<?n]"
  have len: "length ?js = ?n" by (simp add: length_js_sort)
  have eq: "similaritySearch_vec this q k =
      map (elem_at (documents this)) (take (slice_index ?n k) ?js)"
    by (rule similaritySearch_vec_alt)
  have "length (similaritySearch_vec this q k) = min (nat k) ?n" if "0 \<le> k"
  proof -
    have "slice_index ?n k = min (nat k) ?n" using that by (simp add: slice_index_def)
    then show ?thesis unfolding eq using len by simp
  qed
  moreover have "similaritySearch_vec this q k = []" if "vectors this = []"
    unfolding eq using that by simp
  moreover have "mset (similaritySearch_vec this q k) =
      mset (map (elem_at (documents this)) [0..<?n])" if "int ?n \<le> k"
  proof -
    have "slice_index ?n k = ?n" using that by (simp add: slice_index_def)
    then have "similaritySearch_vec this q k = map (elem_at (documents this)) ?js"
      unfolding eq using len by simp
    then show ?thesis using mset_js_sort [of _ "[0..<?n]"] by (metis mset_map)
  qed
  ultimately show ?thesis by blast
qed

theorem similaritySearch_length_witness:
  "(0::int) \<le> 5 \<and>
   length (similaritySearch_vec
     \<lparr> vectors = [[Fin 1, Fin 0], [Fin 0, Fin 1]], documents = [''a'', ''b''], extractor = None \<rparr>
     [Fin 0, Fin 1] 5) = 2 \<and>
   mset (similaritySearch_vec
     \<lparr> vectors = [[Fin 1, Fin 0], [Fin 0, Fin 1]], documents = [''a'', ''b''], extractor = None \<rparr>
     [Fin 0, Fin 1] 5) = {# Some ''a'', Some ''b'' #} \<and>
   vectors (CustomVectorStore :: string store) = [] \<and>
   similaritySearch_vec (CustomVectorStore :: string store) [Fin 0, Fin 1] (- 1) = []"
proof -
  let ?st = "\<lparr> vectors = [[Fin 1, Fin 0], [Fin 0, Fin 1]], documents = [''a'', ''b''],
               extractor = None \<rparr> :: string store"
  have e: "vectors (CustomVectorStore :: string store) = []" by (simp add: CustomVectorStore_def)
  have "length (similaritySearch_vec ?st [Fin 0, Fin 1] 5) = 2"
    and "mset (similaritySearch_vec ?st [Fin 0, Fin 1] 5) = {# Some ''a'', Some ''b'' #}"
    using similaritySearch_length [of 5 ?st "[Fin 0, Fin 1]"] by (simp_all add: elem_at_def upt_rec)
  moreover have "similaritySearch_vec (CustomVectorStore :: string store) [Fin 0, Fin 1] (- 1) = []"
    using similaritySearch_length [of "- 1" "CustomVectorStore :: string store" "[Fin 0, Fin 1]"] e
    by blast
  ultimately show ?thesis using e by simp
qed

subsection \<open>C2: loading sequences of unequal lengths\<close>

text \<open>
  C2 says that \<open>addVectors\<close> fails with \<open>InvariantError\<close> on sequences of unequal
  lengths and leaves the store as it was. \<open>addVectors\<close> has no check: with three
  vectors and two documents it completes, and the store holds three vectors and two
  documents.
\<close>

theorem addVectors_unequal_counterexample:
  "fst (addVectors CustomVectorStore [[Fin 1], [Fin 2], [Fin 3]] [''a'', ''b'']) = Inr () \<and>
   length (vectors (snd (addVectors CustomVectorStore [[Fin 1], [Fin 2], [Fin 3]] [''a'', ''b'']))) = 3 \<and>
   length (documents (snd (addVectors CustomVectorStore [[Fin 1], [Fin 2], [Fin 3]] [''a'', ''b'']))) = 2"
  by (simp add: addVectors_def)

text \<open>
  C2, amended: \<open>addVectors\<close> never fails, whatever the lengths of the two sequences: it
  replaces the vectors and the documents of the store by the given sequences and
  leaves the extractor as it was.
\<close>

theorem addVectors_replaces:
  "fst (addVectors this vs ds) = Inr () \<and>
   vectors (snd (addVectors this vs ds)) = vs \<and>
   documents (snd (addVectors this vs ds)) = ds \<and>
   extractor (snd (addVectors this vs ds)) = extractor this"
  by (simp add: addVectors_def)

subsection \<open>C3: the order of the result\<close>

text \<open>
  C3 says that for every populated store and query vector the result is ordered by
  non-increasing similarity. A stored zero vector has similarity NaN; the comparator
  \<open>b.similarity - a.similarity\<close> then returns NaN, which the sort takes as "equal", so
  the document stays where it was: here before the document of similarity \<open>1\<close>, and
  \<open>NaN >= 1\<close> is false.
\<close>

theorem similaritySearch_order_counterexample:
  "similaritySearch_vec
     \<lparr> vectors = [[Fin 0, Fin 0], [Fin 1, Fin 0]], documents = [''zero'', ''match''],
       extractor = None \<rparr>
     [Fin 1, Fin 0] 2 = [Some ''zero'', Some ''match''] \<and>
   cosineSimilarity [Fin 1, Fin 0] [Fin 0, Fin 0] = NaN \<and>
   cosineSimilarity [Fin 1, Fin 0] [Fin 1, Fin 0] = Fin 1 \<and>
   \<not> js_ge (cosineSimilarity [Fin 1, Fin 0] [Fin 0, Fin 0])
            (cosineSimilarity [Fin 1, Fin 0] [Fin 1, Fin 0])"
  by (simp add: rnd_simps similaritySearch_vec_def js_map_idx_def cosineSimilarity_def js_reduce_def
      num_at_def elem_at_def js_slice_def slice_index_def js_sub_def upt_rec)

text \<open>
  C3, amended: for every store and query vector such that no stored vector has
  similarity NaN to the query, the result is the documents of a prefix of a ranking
  \<open>js\<close> of all the indices, in which every index is ranked before the ones after it:
  its similarity is at least theirs, and where the two similarities are equal it is
  the earlier index. The similarities are the numbers \<open>cosineSimilarity\<close> returns, in
  double arithmetic.
\<close>

theorem similaritySearch_ranked:
  assumes "\<forall>v\<in>set (vectors this). cosineSimilarity q v \<noteq> NaN"
  shows "\<exists>js. mset js = mset [0..<length (vectors this)] \<and>
           sorted_wrt (ranks_before (\<lambda>i. cosineSimilarity q (vectors this ! i))) js \<and>
           similaritySearch_vec this q k =
             map (elem_at (documents this)) (take (slice_index (length (vectors this)) k) js)"
proof -
  let ?n = "length (vectors this)"
  let ?s = "\<lambda>i. cosineSimilarity q (vectors this ! i)"
  let ?js = "js_sort (\<lambda>i j. js_sub (?s j) (?s i)) [0..<?n]"
  have "\<forall>i\<in>set [0..<?n]. ?s i \<noteq> NaN" using assms by simp
  moreover have "sorted_wrt (<) [0..<?n]" by (simp add: sorted_wrt_upt)
  moreover have "\<And>i. is_double (?s i)" by (rule cosineSimilarity_double)
  ultimately have "sorted_wrt (ranks_before ?s) ?js" by (intro sorted_js_sort)
  moreover have "mset ?js = mset [0..<?n]" by (rule mset_js_sort)
  moreover have "similaritySearch_vec this q k =
      map (elem_at (documents this)) (take (slice_index ?n k) ?js)"
    by (rule similaritySearch_vec_alt)
  ultimately show ?thesis by blast
qed

theorem similaritySearch_ranked_witness:
  "cosineSimilarity [Fin 0, Fin 1] [Fin 0, Fin 1] \<noteq> NaN \<and>
   cosineSimilarity [Fin 0, Fin 1] [Fin 1, Fin 0] \<noteq> NaN \<and>
   cosineSimilarity [Fin 0, Fin 1] [Fin 0, Fin 1] \<noteq> NaN \<and>
   similaritySearch_vec
     \<lparr> vectors = [[Fin 0, Fin 1], [Fin 1, Fin 0], [Fin 0, Fin 1]],
       documents = [''a'', ''b'', ''c''], extractor = None \<rparr>
     [Fin 0, Fin 1] 2 = [Some ''a'', Some ''c'']"
proof -
  let ?q = "[Fin 0, Fin 1]"
  let ?vs = "[[Fin 0, Fin 1], [Fin 1, Fin 0], [Fin 0, Fin 1]]"
  let ?st = "\<lparr> vectors = ?vs, documents = [''a'', ''b'', ''c''], extractor = None \<rparr>"
  let ?s = "\<lambda>i. cosineSimilarity ?q (vectors ?st ! i)"
  have s0: "cosineSimilarity ?q [Fin 0, Fin 1] = Fin 1"
    and s1: "cosineSimilarity ?q [Fin 1, Fin 0] = Fin 0"
    and s2: "cosineSimilarity ?q [Fin 0, Fin 1] = Fin 1"
    by (simp_all add: rnd_simps cosineSimilarity_def js_reduce_def num_at_def)
  have h: "\<forall>v\<in>set (vectors ?st). cosineSimilarity ?q v \<noteq> NaN"
    by (simp add: s0 s1 s2)
  obtain js where perm: "mset js = mset [0..<length (vectors ?st)]"
    and ranked: "sorted_wrt (ranks_before ?s) js"
    and res: "similaritySearch_vec ?st ?q 2 =
       map (elem_at (documents ?st)) (take (slice_index (length (vectors ?st)) 2) js)"
    using similaritySearch_ranked [OF h, of 2] by blast
  have upt3: "[0..<length (vectors ?st)] = [0, 1, 2]" by (simp add: upt_rec)
  have perm': "mset js = mset [0, 1, 2]" using perm unfolding upt3 .
  have "length js = 3" using arg_cong [OF perm', of size] by simp
  then obtain x y z where js: "js = [x, y, z]"
    by (metis length_0_conv length_Suc_conv numeral_3_eq_3)
  have mem: "set js = {0, 1, 2}" using arg_cong [OF perm', of set_mset] by simp
  have "distinct [0, 1, 2 :: nat]" by simp
  then have dist: "distinct js" using perm' by (metis mset_eq_imp_distinct_iff)
  have v0: "?s 0 = Fin 1" and v1: "?s 1 = Fin 0" and v2: "?s 2 = Fin 1"
    by (simp_all add: s0 s1 s2)
  have r: "ranks_before ?s x y" "ranks_before ?s x z" "ranks_before ?s y z"
    using ranked js by simp_all
  have not1: "\<not> ranks_before ?s 1 0" "\<not> ranks_before ?s 1 2" "\<not> ranks_before ?s 2 0"
    unfolding ranks_before_def v0 v1 v2 by simp_all
  have "x \<in> set js" "y \<in> set js" "z \<in> set js" by (simp_all add: js)
  then have "x \<in> {0, 1, 2}" "y \<in> {0, 1, 2}" "z \<in> {0, 1, 2}" unfolding mem .
  then have xs: "x = 0 \<or> x = 1 \<or> x = 2" "y = 0 \<or> y = 1 \<or> y = 2" "z = 0 \<or> z = 1 \<or> z = 2"
    by blast+
  have d: "x \<noteq> y" "x \<noteq> z" "y \<noteq> z" using dist unfolding js by simp_all
  have "x \<noteq> 1" using r(1) not1(1,2) xs(2) d(1) by metis
  moreover have "y \<noteq> 1" using r(3) not1(1,2) xs(3) d(3) by metis
  ultimately have z: "z = 1" using xs d by metis
  have "x \<noteq> 2" using r(1) not1(3) xs(2) d(1) \<open>y \<noteq> 1\<close> by metis
  then have x: "x = 0" using xs(1) \<open>x \<noteq> 1\<close> by blast
  then have y: "y = 2" using xs(2) \<open>y \<noteq> 1\<close> d(1) by blast
  have "x = 0 \<and> y = 2 \<and> z = 1" using x y z by simp
  then have "js = [0, 2, 1]" using js by simp
  moreover have "slice_index (length (vectors ?st)) 2 = 2" by (simp add: slice_index_def)
  ultimately have "similaritySearch_vec ?st ?q 2 = [Some ''a'', Some ''c'']"
    using res by (simp add: elem_at_def)
  then show ?thesis using s0 s1 s2 by simp
qed

subsection \<open>C4: vectors of unequal lengths\<close>

text \<open>
  C4 says that \<open>cosineSimilarity\<close> fails with \<open>DimensionMismatchError\<close> on vectors of
  unequal lengths. The function has no check and raises nothing: on \<open>[1]\<close> and
  \<open>[1, 0]\<close> it returns \<open>1\<close>.
\<close>

theorem cosineSimilarity_unequal_counterexample:
  "cosineSimilarity [Fin 1] [Fin 1, Fin 0] = Fin 1"
  by (simp add: rnd_simps cosineSimilarity_def js_reduce_def num_at_def)

text \<open>
  C4, amended: on two vectors of unequal lengths \<open>cosineSimilarity\<close> raises no error
  and returns a number. When the second vector is the shorter one the number is NaN;
  when it is the longer one, the number is the dot product of the first vector with
  the second cut to the length of the first, divided by the product of the magnitudes
  of the two whole vectors.
\<close>

theorem cosineSimilarity_unequal_lengths:
  assumes "length a \<noteq> length b"
  shows "cosineSimilarity a b =
     (if length b < length a then NaN
      else js_div (dotProduct a (take (length a) b)) (js_mul (magnitude a) (magnitude b)))"
proof (cases "length b < length a")
  case True
  then have "reduce_from (dot_step b) 0 (Fin 0) a = NaN"
    by (intro dot_short) simp_all
  then show ?thesis using True by (simp add: cosineSimilarity_alt js_reduce_def)
next
  case False
  have "reduce_from (dot_step b) 0 (Fin 0) a = reduce_from (dot_step (take (length a) b)) 0 (Fin 0) a"
    by (rule reduce_from_cong) (simp add: dot_step_def num_at_def)
  then show ?thesis using False
    by (simp add: cosineSimilarity_alt dotProduct_def js_reduce_def)
qed

theorem cosineSimilarity_unequal_lengths_witness:
  "length [Fin 1, Fin 0] \<noteq> length [Fin 1] \<and> cosineSimilarity [Fin 1, Fin 0] [Fin 1] = NaN"
  using cosineSimilarity_unequal_lengths [of "[Fin 1, Fin 0]" "[Fin 1]"] by simp

subsection \<open>C5: vectors of magnitude zero\<close>

text \<open>
  C5 says that \<open>cosineSimilarity\<close> returns \<open>0\<close> when one of the two vectors has
  magnitude zero. The function divides without a test: for the zero vector the
  quotient is \<open>0/0\<close>.
\<close>

theorem cosineSimilarity_zero_counterexample:
  "length [Fin 0, Fin 0] = length [Fin 1, Fin 0] \<and>
   magnitude [Fin 0, Fin 0] = Fin 0 \<and>
   cosineSimilarity [Fin 0, Fin 0] [Fin 1, Fin 0] \<noteq> Fin 0"
  by (simp add: rnd_simps cosineSimilarity_def magnitude_def js_reduce_def num_at_def)

text \<open>
  C5, amended: for every pair of equal-length vectors where either vector has
  magnitude zero, \<open>cosineSimilarity\<close> returns no finite number, so never \<open>0\<close>: it
  returns NaN or an infinity, and it returns NaN when all the components of either
  vector are zero. (A vector with a non-zero component has magnitude zero when its
  squares underflow; the quotient is then an infinity or NaN.)
\<close>

theorem cosineSimilarity_zero_magnitude:
  assumes "length a = length b" and "magnitude a = Fin 0 \<or> magnitude b = Fin 0"
  shows "cosineSimilarity a b \<in> {NaN, PInf, NInf} \<and>
         ((\<forall>x\<in>set a. x = Fin 0) \<or> (\<forall>x\<in>set b. x = Fin 0) \<longrightarrow>
            cosineSimilarity a b = NaN)"
proof -
  have den: "js_mul (magnitude a) (magnitude b) = Fin 0 \<or>
             js_mul (magnitude a) (magnitude b) = NaN"
    using assms(2)
  proof
    assume "magnitude a = Fin 0"
    then show ?thesis using js_mul_zero_left[of "magnitude b"] by simp
  next
    assume "magnitude b = Fin 0"
    then show ?thesis
      using js_mul_zero_left[of "magnitude a"] js_mul_commute[of "magnitude a" "Fin 0"] by simp
  qed
  then have "cosineSimilarity a b \<in> {NaN, PInf, NInf}"
    unfolding cosineSimilarity_alt by (rule js_div_by_zero)
  moreover have "cosineSimilarity a b = NaN"
    if z: "(\<forall>x\<in>set a. x = Fin 0) \<or> (\<forall>x\<in>set b. x = Fin 0)"
  proof -
    have "js_reduce a (dot_step b) (Fin 0) = Fin 0 \<or> js_reduce a (dot_step b) (Fin 0) = NaN"
      using z
    proof
      assume "\<forall>x\<in>set a. x = Fin 0"
      then show ?thesis unfolding js_reduce_def by (rule dot_zero_left) simp
    next
      assume "\<forall>x\<in>set b. x = Fin 0"
      then show ?thesis unfolding js_reduce_def by (rule dot_zero_right) simp
    qed
    then show ?thesis unfolding cosineSimilarity_alt using den by (rule js_div_zero_den)
  qed
  ultimately show ?thesis by blast
qed

theorem cosineSimilarity_zero_magnitude_witness:
  "length [Fin 3, Fin 4] = length [Fin 0, Fin 0] \<and>
   (magnitude [Fin 3, Fin 4] = Fin 0 \<or> magnitude [Fin 0, Fin 0] = Fin 0) \<and>
   cosineSimilarity [Fin 3, Fin 4] [Fin 0, Fin 0] = NaN"
proof -
  have z: "\<forall>x\<in>set [Fin 0, Fin 0]. x = Fin 0" by simp
  have h: "magnitude [Fin 3, Fin 4] = Fin 0 \<or> magnitude [Fin 0, Fin 0] = Fin 0"
    using zero_vector_magnitude [OF z] by simp
  have l: "length [Fin 3, Fin 4] = length [Fin 0, Fin 0]" by simp
  from cosineSimilarity_zero_magnitude [OF l h] z h l show ?thesis by blast
qed

subsection \<open>C6: the text of a document\<close>

text \<open>
  C6: for every raw record the document's text is \<open>"Title: " + title + "\nContent: " +
  content\<close>, record by record and in the same order, and the empty sequence of records
  gives the empty sequence of documents.
\<close>

theorem formatDocuments_text:
  "length (formatDocuments rawData) = length rawData \<and>
   (\<forall>i<length rawData.
      pageContent (formatDocuments rawData ! i) =
        ''Title: '' @ rawItem.title (rawData ! i) @ [CHR 0x0A] @ ''Content: '' @
        rawItem.content (rawData ! i)) \<and>
   formatDocuments ([] :: 'i rawItem list) = []"
  by (simp add: formatDocuments_def)

theorem formatDocuments_text_witness:
  "(0::nat) < length [\<lparr> rawItem.id' = (1::nat), title = ''A'', content = ''cats are mammals'' \<rparr>] \<and>
   pageContent (formatDocuments
      [\<lparr> rawItem.id' = (1::nat), title = ''A'', content = ''cats are mammals'' \<rparr>] ! 0) =
     ''Title: A'' @ [CHR 0x0A] @ ''Content: cats are mammals''"
proof -
  let ?raw = "[\<lparr> rawItem.id' = (1::nat), title = ''A'', content = ''cats are mammals'' \<rparr>]"
  have h: "(0::nat) < length ?raw" by simp
  with formatDocuments_text [of ?raw]
  have "pageContent (formatDocuments ?raw ! 0) =
      ''Title: '' @ rawItem.title (?raw ! 0) @ [CHR 0x0A] @ ''Content: '' @ rawItem.content (?raw ! 0)"
    by blast
  then show ?thesis using h by simp
qed

subsection \<open>C7: vectors and documents are paired by index\<close>

text \<open>
  C7: \<open>createVectorStore\<close> returns a store whose documents are the given documents, in
  their order, and whose \<open>i\<close>-th vector is the embedding of the text of the \<open>i\<close>-th
  document; the two sequences have the same length.
\<close>

theorem createVectorStore_paired:
  "\<exists>st. createVectorStore docs ex = Inr st \<and>
     documents st = docs \<and>
     length (vectors st) = length (documents st) \<and>
     (\<forall>i<length docs. vectors st ! i = getEmbeddings ex (pageContent (docs ! i))) \<and>
     extractor st = Some ex"
  by (simp add: createVectorStore_def addVectors_def setExtractor_def CustomVectorStore_def)

theorem createVectorStore_paired_witness:
  "\<exists>st. createVectorStore
       [\<lparr> pageContent = ''cat'', metadata = \<lparr> metadata.id' = (1::nat), title = ''A'' \<rparr> \<rparr>,
        \<lparr> pageContent = ''rocket'', metadata = \<lparr> metadata.id' = 2, title = ''B'' \<rparr> \<rparr>]
       (\<lambda>t. if t = ''cat'' then [Fin 1, Fin 0] else [Fin 0, Fin 1]) = Inr st \<and>
     length (vectors st) = 2 \<and>
     vectors st ! 0 = [Fin 1, Fin 0] \<and>
     vectors st ! 1 = [Fin 0, Fin 1]"
proof -
  let ?docs = "[\<lparr> pageContent = ''cat'', metadata = \<lparr> metadata.id' = (1::nat), title = ''A'' \<rparr> \<rparr>,
        \<lparr> pageContent = ''rocket'', metadata = \<lparr> metadata.id' = 2, title = ''B'' \<rparr> \<rparr>]"
  let ?ex = "\<lambda>t. if t = ''cat'' then [Fin 1, Fin 0] else [Fin 0, Fin 1]"
  obtain st where st: "createVectorStore ?docs ?ex = Inr st" "documents st = ?docs"
    "length (vectors st) = length (documents st)"
    "\<forall>i<length ?docs. vectors st ! i = getEmbeddings ?ex (pageContent (?docs ! i))"
    using createVectorStore_paired [of ?docs ?ex] by blast
  have "vectors st ! 0 = [Fin 1, Fin 0]" "vectors st ! 1 = [Fin 0, Fin 1]"
    using st(4) by (simp_all add: getEmbeddings_def)
  moreover have "length (vectors st) = 2" using st(2,3) by simp
  ultimately show ?thesis using st(1) by blast
qed

subsection \<open>C8: two searches in a row\<close>

text \<open>
  C8 (two searches with the same query on an unchanged store return the same sequence)
  has no theorem here. Every operation of this development is a function of its
  arguments, so that two evaluations agree is true of the model by construction; that
  the engine's sort and the embedder do the same thing twice is a property of the
  runtime, which these definitions do not describe.
\<close>

subsection \<open>C9: symmetry\<close>

text \<open>
  C9: for every pair of vectors of equal length, \<open>cosineSimilarity(a, b)\<close> and
  \<open>cosineSimilarity(b, a)\<close> are the same value (which is NaN on both sides when it is
  NaN on one).
\<close>

theorem cosineSimilarity_symmetric:
  assumes "length a = length b"
  shows "cosineSimilarity a b = cosineSimilarity b a"
proof -
  have "js_reduce a (dot_step b) (Fin 0) = js_reduce b (dot_step a) (Fin 0)"
    using assms by (rule dot_commute)
  moreover have "js_mul (magnitude a) (magnitude b) = js_mul (magnitude b) (magnitude a)"
    by (rule js_mul_commute)
  ultimately show ?thesis by (simp add: cosineSimilarity_alt)
qed

theorem cosineSimilarity_symmetric_witness:
  "length [Fin 1, Fin 2] = length [Fin 3, Fin 4] \<and>
   cosineSimilarity [Fin 1, Fin 2] [Fin 3, Fin 4] = cosineSimilarity [Fin 3, Fin 4] [Fin 1, Fin 2]"
  using cosineSimilarity_symmetric [of "[Fin 1, Fin 2]" "[Fin 3, Fin 4]"] by simp

subsection \<open>C10: the query pipeline asks for three documents\<close>

text \<open>
  C10: \<open>searchDocuments\<close> takes no \<open>k\<close> and passes \<open>3\<close>: on a store holding \<open>n\<close>
  documents with their \<open>n\<close> vectors and the extractor (as every store that
  \<open>createVectorStore\<close> builds), it returns \<open>min(3, n)\<close> documents.
\<close>

theorem searchDocuments_three:
  assumes "extractor vectorStore = Some ex"
    and "length (vectors vectorStore) = length (documents vectorStore)"
  shows "\<exists>ds. fst (searchDocuments vectorStore query) = Inr ds \<and>
           length ds = min 3 (length (documents vectorStore))"
proof -
  let ?q = "getEmbeddings ex query"
  have "fst (searchDocuments vectorStore query) = Inr (similaritySearch_vec vectorStore ?q 3)"
    using assms(1) by (simp add: searchDocuments_def similaritySearch_def)
  moreover have "length (similaritySearch_vec vectorStore ?q 3) =
      min 3 (length (vectors vectorStore))"
    by (simp add: similaritySearch_vec_alt length_js_sort slice_index_def)
  ultimately show ?thesis using assms(2) by simp
qed

theorem searchDocuments_three_witness:
  "extractor \<lparr> vectors = [[Fin 1], [Fin 2], [Fin 3], [Fin 4]],
       documents = [''a'', ''b'', ''c'', ''d''], extractor = Some (\<lambda>t. [Fin 1]) \<rparr> =
     Some (\<lambda>t. [Fin 1]) \<and>
   length (vectors \<lparr> vectors = [[Fin 1], [Fin 2], [Fin 3], [Fin 4]],
       documents = [''a'', ''b'', ''c'', ''d''], extractor = Some (\<lambda>t. [Fin 1]) \<rparr>) =
     length (documents \<lparr> vectors = [[Fin 1], [Fin 2], [Fin 3], [Fin 4]],
       documents = [''a'', ''b'', ''c'', ''d''], extractor = Some (\<lambda>t. [Fin 1]) \<rparr>) \<and>
   (\<exists>ds. fst (searchDocuments \<lparr> vectors = [[Fin 1], [Fin 2], [Fin 3], [Fin 4]],
       documents = [''a'', ''b'', ''c'', ''d''], extractor = Some (\<lambda>t. [Fin 1]) \<rparr> ''q'') = Inr ds \<and>
     length ds = 3)"
proof -
  let ?st = "\<lparr> vectors = [[Fin 1], [Fin 2], [Fin 3], [Fin 4]],
       documents = [''a'', ''b'', ''c'', ''d''], extractor = Some (\<lambda>t. [Fin 1]) \<rparr>"
  have h: "extractor ?st = Some (\<lambda>t. [Fin 1])" by simp
  have l: "length (vectors ?st) = length (documents ?st)" by simp
  obtain ds where ds: "fst (searchDocuments ?st ''q'') = Inr ds"
    "length ds = min 3 (length (documents ?st))"
    using searchDocuments_three [OF h l, of "''q''"] by blast
  have "length ds = 3" using ds(2) by simp
  then show ?thesis using h l ds(1) by blast
qed

end
